theory Spec2Isabelle
  imports Complex_Main
begin

text \<open>
  A shallow embedding of \<^verbatim>\<open>src/index.ts\<close> of the exponential slider: the resolver
  \<^verbatim>\<open>resolveConfig\<close>, the clamp \<^verbatim>\<open>limitBounds\<close>, the two transforms
  \<^verbatim>\<open>stepToModelInternal\<close> and \<^verbatim>\<open>modelToStepInternal\<close> with their helpers \<^verbatim>\<open>expRange\<close> and
  \<^verbatim>\<open>rootRange\<close>, and the properties the specification states about them.
\<close>

section \<open>JavaScript numbers\<close>

text \<open>
  Every value of the library is a JavaScript \<^verbatim>\<open>number\<close>. The model keeps the three
  kinds of value that decide the control flow of the code: not-a-number, the two
  infinities, and the finite values. A finite value is an exact real: the rounding of
  double precision, its overflow to an infinity and the sign of zero are not modelled
  (a zero divisor counts as \<^verbatim>\<open>+0\<close>).
\<close>

datatype number = NaN | NegInf | Fin real | PosInf

fun isFinite :: "number \<Rightarrow> bool" where
  "isFinite (Fin x) = True"
| "isFinite v = False"

fun isInteger :: "number \<Rightarrow> bool" where
  "isInteger (Fin x) = (of_int \<lfloor>x\<rfloor> = x)"
| "isInteger v = False"

text \<open>The infinity with the sign of a real, and not-a-number at zero.\<close>

definition signedInf :: "real \<Rightarrow> number" where
  "signedInf s = (if 0 < s then PosInf else if s < 0 then NegInf else NaN)"

fun js_neg :: "number \<Rightarrow> number" where
  "js_neg NaN = NaN"
| "js_neg NegInf = PosInf"
| "js_neg (Fin x) = Fin (- x)"
| "js_neg PosInf = NegInf"

text \<open>\<^verbatim>\<open>a + b\<close>\<close>

fun js_add :: "number \<Rightarrow> number \<Rightarrow> number" where
  "js_add (Fin x) (Fin y) = Fin (x + y)"
| "js_add NaN b = NaN"
| "js_add a NaN = NaN"
| "js_add PosInf NegInf = NaN"
| "js_add NegInf PosInf = NaN"
| "js_add PosInf b = PosInf"
| "js_add a PosInf = PosInf"
| "js_add NegInf b = NegInf"
| "js_add a NegInf = NegInf"

text \<open>\<^verbatim>\<open>a - b\<close>\<close>

definition js_sub :: "number \<Rightarrow> number \<Rightarrow> number" where
  "js_sub a b = js_add a (js_neg b)"

text \<open>\<^verbatim>\<open>a * b\<close>: an infinity times zero is not-a-number.\<close>

fun js_mul :: "number \<Rightarrow> number \<Rightarrow> number" where
  "js_mul (Fin x) (Fin y) = Fin (x * y)"
| "js_mul NaN b = NaN"
| "js_mul a NaN = NaN"
| "js_mul PosInf (Fin y) = signedInf y"
| "js_mul (Fin x) PosInf = signedInf x"
| "js_mul NegInf (Fin y) = signedInf (- y)"
| "js_mul (Fin x) NegInf = signedInf (- x)"
| "js_mul PosInf PosInf = PosInf"
| "js_mul NegInf NegInf = PosInf"
| "js_mul PosInf NegInf = NegInf"
| "js_mul NegInf PosInf = NegInf"

text \<open>
  \<^verbatim>\<open>a / b\<close>: a finite value over zero is an infinity, zero over zero and an infinity
  over an infinity are not-a-number; nothing is raised.
\<close>

fun js_div :: "number \<Rightarrow> number \<Rightarrow> number" where
  "js_div (Fin x) (Fin y) = (if y = 0 then signedInf x else Fin (x / y))"
| "js_div NaN b = NaN"
| "js_div a NaN = NaN"
| "js_div (Fin x) PosInf = Fin 0"
| "js_div (Fin x) NegInf = Fin 0"
| "js_div PosInf (Fin y) = (if 0 \<le> y then PosInf else NegInf)"
| "js_div NegInf (Fin y) = (if 0 \<le> y then NegInf else PosInf)"
| "js_div PosInf b = NaN"
| "js_div NegInf b = NaN"

text \<open>\<^verbatim>\<open>a <= b\<close>, \<^verbatim>\<open>a < b\<close>, \<^verbatim>\<open>a >= b\<close>, \<^verbatim>\<open>a > b\<close>: false as soon as one side is not-a-number.\<close>

fun js_le :: "number \<Rightarrow> number \<Rightarrow> bool" where
  "js_le (Fin x) (Fin y) = (x \<le> y)"
| "js_le NaN b = False"
| "js_le a NaN = False"
| "js_le NegInf b = True"
| "js_le a PosInf = True"
| "js_le PosInf b = False"
| "js_le a NegInf = False"

definition js_lt :: "number \<Rightarrow> number \<Rightarrow> bool" where
  "js_lt a b = (js_le a b \<and> \<not> js_le b a)"

definition js_ge :: "number \<Rightarrow> number \<Rightarrow> bool" where
  "js_ge a b = js_le b a"

definition js_gt :: "number \<Rightarrow> number \<Rightarrow> bool" where
  "js_gt a b = js_lt b a"

text \<open>\<^verbatim>\<open>a === b\<close> on numbers: not-a-number equals nothing.\<close>

definition js_seq :: "number \<Rightarrow> number \<Rightarrow> bool" where
  "js_seq a b = (a \<noteq> NaN \<and> a = b)"

text \<open>\<^verbatim>\<open>Math.min\<close>, \<^verbatim>\<open>Math.max\<close>: not-a-number as soon as one argument is.\<close>

definition Math_min :: "number \<Rightarrow> number \<Rightarrow> number" where
  "Math_min a b = (if a = NaN \<or> b = NaN then NaN else if js_le a b then a else b)"

definition Math_max :: "number \<Rightarrow> number \<Rightarrow> number" where
  "Math_max a b = (if a = NaN \<or> b = NaN then NaN else if js_le a b then b else a)"

text \<open>\<^verbatim>\<open>Math.round\<close>: the nearest integer, a tie going up.\<close>

fun Math_round :: "number \<Rightarrow> number" where
  "Math_round (Fin x) = Fin (of_int \<lfloor>x + 1 / 2\<rfloor>)"
| "Math_round v = v"

text \<open>\<^verbatim>\<open>Math.pow(a, 2)\<close>\<close>

fun Math_pow2 :: "number \<Rightarrow> number" where
  "Math_pow2 NaN = NaN"
| "Math_pow2 (Fin x) = Fin (x * x)"
| "Math_pow2 v = PosInf"

text \<open>\<^verbatim>\<open>Math.sqrt\<close>: not-a-number below zero.\<close>

fun Math_sqrt :: "number \<Rightarrow> number" where
  "Math_sqrt (Fin x) = (if x < 0 then NaN else Fin (sqrt x))"
| "Math_sqrt PosInf = PosInf"
| "Math_sqrt v = NaN"

section \<open>The data of the slider\<close>

text \<open>
  The fields \<^verbatim>\<open>min\<close>, \<^verbatim>\<open>max\<close> of \<^verbatim>\<open>Bounds\<close> are \<open>minB\<close>, \<open>maxB\<close> here, and the fields
  \<^verbatim>\<open>linearPercent\<close>, \<^verbatim>\<open>min\<close>, \<^verbatim>\<open>max\<close>, \<^verbatim>\<open>range\<close> of \<^verbatim>\<open>ResolvedConfig\<close> are
  \<open>linearPercentR\<close>, \<open>minR\<close>, \<open>maxR\<close>, \<open>rangeR\<close>. The local constants \<^verbatim>\<open>linear\<close>
  and \<^verbatim>\<open>range\<close> are \<open>lin\<close> and \<open>rng\<close>.
\<close>

record LinearConfig =
  maxLinear :: number
  linearPercent :: number

record Bounds =
  minB :: number
  maxB :: number

record ResolvedConfig =
  steps :: number
  linearAbsolute :: number
  linearPercentR :: number
  minR :: number
  maxR :: number
  rangeR :: number

section \<open>The functions of \<^verbatim>\<open>index.ts\<close>\<close>

text \<open>\<^verbatim>\<open>linear ||= {maxLinear: 0, linearPercent: 0}\<close>: an object is truthy, only an absent
  argument takes the default.\<close>

definition defaultLinear :: "LinearConfig option \<Rightarrow> LinearConfig" where
  "defaultLinear linearOpt =
     (case linearOpt of
        None \<Rightarrow> \<lparr>maxLinear = Fin 0, linearPercent = Fin 0\<rparr>
      | Some l \<Rightarrow> l)"

definition resolveConfig :: "number \<Rightarrow> Bounds \<Rightarrow> LinearConfig option \<Rightarrow> ResolvedConfig" where
  "resolveConfig stepsN bounds linearOpt =
     (let lin = defaultLinear linearOpt;
          lp = js_div (linearPercent lin) (Fin 100);
          la = Math_min (maxLinear lin) (Math_round (js_mul (maxB bounds) lp));
          mx = (if js_seq (linearPercent lin) (Fin 100) then maxLinear lin
                else maxB bounds)
      in \<lparr>steps = stepsN, linearAbsolute = la, linearPercentR = lp,
          minR = minB bounds, maxR = mx, rangeR = js_sub mx (minB bounds)\<rparr>)"

definition limitBounds :: "number \<Rightarrow> Bounds \<Rightarrow> number" where
  "limitBounds v bounds = Math_min (Math_max v (minB bounds)) (maxB bounds)"

definition expRange :: "number \<Rightarrow> number \<Rightarrow> number \<Rightarrow> number" where
  "expRange v mn mx =
     (let rng = js_sub mx mn
      in js_add (js_mul (Math_pow2 (js_div v rng)) rng) mn)"

definition rootRange :: "number \<Rightarrow> number \<Rightarrow> number \<Rightarrow> number" where
  "rootRange v mn mx =
     (let rng = js_sub mx mn
      in js_mul (Math_sqrt (js_div (Math_max (Fin 0) (js_sub v mn)) rng)) rng)"

text \<open>The block of \<^verbatim>\<open>stepToModelInternal\<close> under \<^verbatim>\<open>if (percent <= linearPercent)\<close>.\<close>

definition linearBranch :: "number \<Rightarrow> ResolvedConfig \<Rightarrow> number" where
  "linearBranch percent config =
     (let percentOfAbsolute =
            (if js_gt (linearPercentR config) (Fin 0)
             then js_div percent (linearPercentR config) else Fin 0)
      in js_add (js_mul percentOfAbsolute (linearAbsolute config)) (minR config))"

text \<open>The rest of \<^verbatim>\<open>stepToModelInternal\<close>, from \<^verbatim>\<open>const linear\<close> to its last \<^verbatim>\<open>return\<close>;
  \<open>step\<close> is the clamped step.\<close>

definition exponentialBranch :: "number \<Rightarrow> number \<Rightarrow> ResolvedConfig \<Rightarrow> number" where
  "exponentialBranch step percent config =
     (let lin =
            (if js_gt (linearPercentR config) (Fin 0)
             then js_mul (js_div (Math_min percent (linearPercentR config))
                                 (linearPercentR config))
                         (linearAbsolute config)
             else Fin 0);
          rangeExponential = js_sub (rangeR config) (linearAbsolute config);
          remainder = js_sub step (js_mul (steps config) (linearPercentR config));
          expPercent = js_sub (Fin 1) (linearPercentR config);
          percentOfMax = js_div remainder (js_mul (steps config) expPercent);
          expVal = js_mul percentOfMax rangeExponential
      in js_add (js_add lin (expRange expVal (Fin 0) rangeExponential)) (minR config))"

definition stepToModelInternal :: "number \<Rightarrow> ResolvedConfig \<Rightarrow> number" where
  "stepToModelInternal step0 config =
     (let step = limitBounds step0 \<lparr>minB = Fin 0, maxB = steps config\<rparr>;
          percent = js_div step (steps config)
      in if js_ge (linearAbsolute config) (maxR config)
         then js_add (js_mul percent (rangeR config)) (minR config)
         else if js_le percent (linearPercentR config)
         then linearBranch percent config
         else exponentialBranch step percent config)"

definition modelToStepInternal :: "number \<Rightarrow> ResolvedConfig \<Rightarrow> number" where
  "modelToStepInternal model0 config =
     (let model = limitBounds model0 \<lparr>minB = minR config, maxB = maxR config\<rparr>;
          actualValue = Math_max (js_sub model (minR config)) (Fin 0)
      in if js_ge (linearAbsolute config) (maxR config)
         then (let percent = js_div actualValue (rangeR config)
               in Math_round (js_mul percent (steps config)))
         else if js_gt (linearAbsolute config) (Fin 0)
                 \<and> js_le actualValue (linearAbsolute config)
         then (let percent = js_mul (js_div actualValue (linearAbsolute config))
                                    (linearPercentR config)
               in Math_round (js_mul percent (steps config)))
         else (let remainderValue = js_sub actualValue (linearAbsolute config);
                   rangeExponential = js_sub (rangeR config) (linearAbsolute config);
                   dynamicPercent = js_sub (Fin 1) (linearPercentR config);
                   percentOfMax =
                     js_div (rootRange remainderValue (Fin 0) rangeExponential)
                            rangeExponential
               in Math_round
                    (js_add (js_mul (steps config) (linearPercentR config))
                            (js_mul (js_mul percentOfMax (steps config)) dynamicPercent))))"

definition stepToModel :: "number \<Rightarrow> number \<Rightarrow> Bounds \<Rightarrow> LinearConfig option \<Rightarrow> number" where
  "stepToModel step stepsN bounds linearOpt =
     stepToModelInternal step (resolveConfig stepsN bounds linearOpt)"

definition modelToStep :: "number \<Rightarrow> number \<Rightarrow> Bounds \<Rightarrow> LinearConfig option \<Rightarrow> number" where
  "modelToStep model stepsN bounds linearOpt =
     modelToStepInternal model (resolveConfig stepsN bounds linearOpt)"

section \<open>Predicates of the statements\<close>

text \<open>All five numbers handed to \<open>resolveConfig\<close> are finite.\<close>

definition finiteInput :: "number \<Rightarrow> Bounds \<Rightarrow> LinearConfig option \<Rightarrow> bool" where
  "finiteInput stepsN bounds linearOpt =
     (isFinite stepsN \<and> isFinite (minB bounds) \<and> isFinite (maxB bounds) \<and>
      isFinite (maxLinear (defaultLinear linearOpt)) \<and>
      isFinite (linearPercent (defaultLinear linearOpt)))"

text \<open>
  The linear region fits under the maximum: either the configuration is in the mode
  \<^verbatim>\<open>linearAbsolute >= max\<close>, which is linear from end to end, or \<open>linearAbsolute\<close>, which
  the transforms add to \<open>min\<close>, is non-negative and leaves room for the exponential region.
\<close>

definition linearFits :: "ResolvedConfig \<Rightarrow> bool" where
  "linearFits config =
     (js_ge (linearAbsolute config) (maxR config) \<or>
      (js_le (Fin 0) (linearAbsolute config) \<and>
       js_lt (linearAbsolute config) (rangeR config)))"

text \<open>
  The three regimes: linear from end to end; a linear region of positive width followed
  by an exponential one; no linear region at all.
\<close>

definition regime :: "ResolvedConfig \<Rightarrow> bool" where
  "regime config =
     (js_ge (linearAbsolute config) (maxR config) \<or>
      (js_lt (Fin 0) (linearPercentR config) \<and> js_lt (linearPercentR config) (Fin 1) \<and>
       js_lt (Fin 0) (linearAbsolute config) \<and>
       js_lt (linearAbsolute config) (rangeR config)) \<or>
      (js_seq (linearPercentR config) (Fin 0) \<and> js_seq (linearAbsolute config) (Fin 0)))"

text \<open>A resolved configuration whose six fields are finite.\<close>

abbreviation cfgF :: "real \<Rightarrow> real \<Rightarrow> real \<Rightarrow> real \<Rightarrow> real \<Rightarrow> real \<Rightarrow> ResolvedConfig" where
  "cfgF n la lp mn mx rg \<equiv>
     \<lparr>steps = Fin n, linearAbsolute = Fin la, linearPercentR = Fin lp,
      minR = Fin mn, maxR = Fin mx, rangeR = Fin rg\<rparr>"

section \<open>The operations on finite values\<close>

lemma js_lt_Fin [simp]: "js_lt (Fin x) (Fin y) = (x < y)"
  by (auto simp: js_lt_def)

lemma js_ge_Fin [simp]: "js_ge (Fin x) (Fin y) = (y \<le> x)"
  by (simp add: js_ge_def)

lemma js_gt_Fin [simp]: "js_gt (Fin x) (Fin y) = (y < x)"
  by (simp add: js_gt_def)

lemma js_sub_Fin [simp]: "js_sub (Fin x) (Fin y) = Fin (x - y)"
  by (simp add: js_sub_def)

lemma js_seq_Fin [simp]: "js_seq (Fin x) (Fin y) = (x = y)"
  by (simp add: js_seq_def)

lemma Math_min_Fin [simp]: "Math_min (Fin x) (Fin y) = Fin (min x y)"
  by (simp add: Math_min_def min_def)

lemma Math_max_Fin [simp]: "Math_max (Fin x) (Fin y) = Fin (max x y)"
  by (simp add: Math_max_def max_def)

lemma limitBounds_Fin [simp]:
  "limitBounds (Fin v) \<lparr>minB = Fin a, maxB = Fin b\<rparr> = Fin (min (max v a) b)"
  by (simp add: limitBounds_def)

lemma isFinite_iff: "isFinite v = (\<exists>x. v = Fin x)"
  by (cases v) simp_all

section \<open>The fixtures of the tests\<close>

text \<open>
  The model evaluates the fixtures of the test suite of \<^verbatim>\<open>index.ts\<close> to the values the
  tests expect (the tests compare after \<^verbatim>\<open>toFixed(0)\<close>; the values here are exact).
\<close>

lemma resolveConfig_fixtures:
  "resolveConfig (Fin 1000) \<lparr>minB = Fin 500, maxB = Fin 1500000\<rparr>
     (Some \<lparr>maxLinear = Fin 15000, linearPercent = Fin 75\<rparr>) =
   cfgF 1000 15000 (3 / 4) 500 1500000 1499500"
  "resolveConfig (Fin 1000) \<lparr>minB = Fin 500, maxB = Fin 1500000\<rparr>
     (Some \<lparr>maxLinear = Fin 15000, linearPercent = Fin 99\<rparr>) =
   cfgF 1000 15000 (99 / 100) 500 1500000 1499500"
  "resolveConfig (Fin 1000) \<lparr>minB = Fin 500, maxB = Fin 1500000\<rparr>
     (Some \<lparr>maxLinear = Fin 15000, linearPercent = Fin 100\<rparr>) =
   cfgF 1000 15000 1 500 15000 14500"
  "resolveConfig (Fin 1000) \<lparr>minB = Fin 500, maxB = Fin 12000\<rparr>
     (Some \<lparr>maxLinear = Fin 15000, linearPercent = Fin 90\<rparr>) =
   cfgF 1000 10800 (9 / 10) 500 12000 11500"
  "resolveConfig (Fin 1000) \<lparr>minB = Fin 500, maxB = Fin 12000\<rparr> None =
   cfgF 1000 0 0 500 12000 11500"
  by (simp_all add: resolveConfig_def defaultLinear_def Let_def)

lemma stepToModel_fixtures:
  "stepToModel (Fin 0) (Fin 1000) \<lparr>minB = Fin 500, maxB = Fin 1250000\<rparr>
     (Some \<lparr>maxLinear = Fin 15000, linearPercent = Fin 75\<rparr>) = Fin 500"
  "stepToModel (Fin 500) (Fin 1000) \<lparr>minB = Fin 500, maxB = Fin 1250000\<rparr>
     (Some \<lparr>maxLinear = Fin 15000, linearPercent = Fin 75\<rparr>) = Fin 10500"
  "stepToModel (Fin 750) (Fin 1000) \<lparr>minB = Fin 500, maxB = Fin 1250000\<rparr>
     (Some \<lparr>maxLinear = Fin 15000, linearPercent = Fin 75\<rparr>) = Fin 15500"
  "stepToModel (Fin 998) (Fin 1000) \<lparr>minB = Fin 500, maxB = Fin 1250000\<rparr>
     (Some \<lparr>maxLinear = Fin 15000, linearPercent = Fin 75\<rparr>) = Fin (1230327008 / 1000)"
  "stepToModel (Fin 1000) (Fin 1000) \<lparr>minB = Fin 500, maxB = Fin 1250000\<rparr>
     (Some \<lparr>maxLinear = Fin 15000, linearPercent = Fin 75\<rparr>) = Fin 1250000"
  "stepToModel (Fin 6500) (Fin 1000) \<lparr>minB = Fin 500, maxB = Fin 1250000\<rparr>
     (Some \<lparr>maxLinear = Fin 15000, linearPercent = Fin 75\<rparr>) = Fin 1250000"
  "stepToModel (Fin 999) (Fin 1000) \<lparr>minB = Fin 500, maxB = Fin 1250000\<rparr>
     (Some \<lparr>maxLinear = Fin 1000000, linearPercent = Fin 100\<rparr>) = Fin (9990005 / 10)"
  by (simp_all add: stepToModel_def resolveConfig_def defaultLinear_def Let_def
      stepToModelInternal_def linearBranch_def exponentialBranch_def expRange_def)

lemma modelToStep_fixtures:
  "modelToStep (Fin 500) (Fin 1000) \<lparr>minB = Fin 500, maxB = Fin 1250000\<rparr>
     (Some \<lparr>maxLinear = Fin 15000, linearPercent = Fin 75\<rparr>) = Fin 0"
  "modelToStep (Fin 6500) (Fin 1000) \<lparr>minB = Fin 500, maxB = Fin 1250000\<rparr>
     (Some \<lparr>maxLinear = Fin 15000, linearPercent = Fin 75\<rparr>) = Fin 300"
  "modelToStep (Fin 1250000) (Fin 1000) \<lparr>minB = Fin 500, maxB = Fin 1250000\<rparr>
     (Some \<lparr>maxLinear = Fin 15000, linearPercent = Fin 75\<rparr>) = Fin 1000"
  "modelToStep (Fin 750500) (Fin 1000) \<lparr>minB = Fin 500, maxB = Fin 1000000\<rparr>
     (Some \<lparr>maxLinear = Fin 1000000, linearPercent = Fin 75\<rparr>) = Fin 750"
  "modelToStep (Fin 1000000) (Fin 1000) \<lparr>minB = Fin 500, maxB = Fin 1250000\<rparr>
     (Some \<lparr>maxLinear = Fin 1000000, linearPercent = Fin 100\<rparr>) = Fin 1000"
  by (simp_all add: modelToStep_def resolveConfig_def defaultLinear_def Let_def
      modelToStepInternal_def rootRange_def)

section \<open>The branches of the two transforms on a finite configuration\<close>

lemma stm_A:
  assumes "0 < n" "mx \<le> la"
  shows "stepToModelInternal (Fin s) (cfgF n la lp mn mx rg) =
         Fin (min (max s 0) n / n * rg + mn)"
  using assms by (simp add: stepToModelInternal_def)

lemma stm_B:
  assumes "0 < n" "la < mx" "min (max s 0) n / n \<le> lp"
  shows "stepToModelInternal (Fin s) (cfgF n la lp mn mx rg) =
         Fin ((if 0 < lp then min (max s 0) n / n / lp else 0) * la + mn)"
  using assms by (simp add: stepToModelInternal_def linearBranch_def)

lemma stm_C:
  assumes "0 < n" "la < mx" "lp < min (max s 0) n / n" "lp < 1" "rg \<noteq> la"
  shows "stepToModelInternal (Fin s) (cfgF n la lp mn mx rg) =
         Fin ((if 0 < lp then la else 0)
              + ((min (max s 0) n - n * lp) / (n * (1 - lp)))\<^sup>2 * (rg - la) + mn)"
  using assms
  by (simp add: stepToModelInternal_def exponentialBranch_def expRange_def Let_def
      power2_eq_square)

lemma actual_Fin:
  "Math_max (js_sub (limitBounds (Fin m) \<lparr>minB = Fin mn, maxB = Fin mx\<rparr>) (Fin mn)) (Fin 0) =
   Fin (max (min (max m mn) mx - mn) 0)"
  by simp

lemma mts_A:
  assumes "mx \<le> la" "rg \<noteq> 0" "act = max (min (max m mn) mx - mn) 0"
  shows "modelToStepInternal (Fin m) (cfgF n la lp mn mx rg) =
         Fin (of_int (round (act / rg * n)))"
  unfolding modelToStepInternal_def Let_def ResolvedConfig.select_convs actual_Fin
    assms(3)[symmetric]
  using assms(1,2) by (simp add: round_def)

lemma mts_B:
  assumes "la < mx" "0 < la" "act \<le> la" "act = max (min (max m mn) mx - mn) 0"
  shows "modelToStepInternal (Fin m) (cfgF n la lp mn mx rg) =
         Fin (of_int (round (act / la * lp * n)))"
  unfolding modelToStepInternal_def Let_def ResolvedConfig.select_convs actual_Fin
    assms(4)[symmetric]
  using assms(1,2,3) by (simp add: round_def)

lemma mts_C:
  assumes "la < mx" "la \<le> 0 \<or> la < act" "la < rg"
    "act = max (min (max m mn) mx - mn) 0"
  shows "modelToStepInternal (Fin m) (cfgF n la lp mn mx rg) =
         Fin (of_int (round (n * lp + sqrt (max 0 (act - la) / (rg - la)) * n * (1 - lp))))"
proof -
  have "0 \<le> max 0 (act - la) / (rg - la)"
    using assms(3) by (intro divide_nonneg_pos) simp_all
  then have "\<not> max 0 (act - la) / (rg - la) < 0"
    by simp
  then show ?thesis
    unfolding modelToStepInternal_def Let_def ResolvedConfig.select_convs actual_Fin
      assms(4)[symmetric]
    using assms(1,2,3) by (auto simp add: round_def rootRange_def Let_def)
qed

section \<open>Facts shared by the proofs\<close>

lemma isInteger_iff: "isInteger v = (\<exists>z. v = Fin (of_int z))"
  by (cases v) auto

lemma finiteInput_fields:
  assumes "finiteInput stepsN bounds linearOpt"
  obtains n a b ml p where "stepsN = Fin n" "minB bounds = Fin a" "maxB bounds = Fin b"
    "maxLinear (defaultLinear linearOpt) = Fin ml"
    "linearPercent (defaultLinear linearOpt) = Fin p"
    "resolveConfig stepsN bounds linearOpt =
       cfgF n (min ml (of_int \<lfloor>b * (p / 100) + 1 / 2\<rfloor>)) (p / 100) a
         (if p = 100 then ml else b) ((if p = 100 then ml else b) - a)"
proof -
  from assms obtain n a b ml p where *: "stepsN = Fin n" "minB bounds = Fin a"
    "maxB bounds = Fin b" "maxLinear (defaultLinear linearOpt) = Fin ml"
    "linearPercent (defaultLinear linearOpt) = Fin p"
    by (auto simp: finiteInput_def isFinite_iff)
  then have "resolveConfig stepsN bounds linearOpt =
       cfgF n (min ml (of_int \<lfloor>b * (p / 100) + 1 / 2\<rfloor>)) (p / 100) a
         (if p = 100 then ml else b) ((if p = 100 then ml else b) - a)"
    by (simp add: resolveConfig_def Let_def)
  with * show ?thesis
    by (rule that)
qed

lemma finiteInput_resolved:
  assumes "finiteInput stepsN bounds linearOpt"
  obtains n la lp mn mx where "stepsN = Fin n"
    "resolveConfig stepsN bounds linearOpt = cfgF n la lp mn mx (mx - mn)"
  using assms by (rule finiteInput_fields)

lemma clamp_bounds:
  fixes s n :: real
  assumes "0 < n"
  shows "0 \<le> min (max s 0) n" "min (max s 0) n \<le> n"
    "0 \<le> min (max s 0) n / n" "min (max s 0) n / n \<le> 1"
  using assms by simp_all

lemma clamp_id:
  fixes s n :: real
  assumes "0 \<le> s" "s \<le> n"
  shows "min (max s 0) n = s"
  using assms by simp

lemma clamp_mono:
  fixes s1 s2 n :: real
  assumes "s1 \<le> s2"
  shows "min (max s1 0) n \<le> min (max s2 0) n"
  using assms by (simp add: min_def max_def)

lemma percentOfMax_bounds:
  fixes st n lp :: real
  assumes "0 < n" "lp < 1" "lp < st / n" "st \<le> n"
  shows "0 < (st - n * lp) / (n * (1 - lp))" "(st - n * lp) / (n * (1 - lp)) \<le> 1"
proof -
  have den: "0 < n * (1 - lp)"
    using assms(1,2) by simp
  have "n * lp < st"
    using assms(1,3) by (simp add: pos_less_divide_eq mult.commute)
  then show "0 < (st - n * lp) / (n * (1 - lp))"
    using den by simp
  have "st - n * lp \<le> n * (1 - lp)"
    using assms(4) by (simp add: algebra_simps)
  then show "(st - n * lp) / (n * (1 - lp)) \<le> 1"
    using den by (simp add: pos_divide_le_eq)
qed

lemma regime_cases:
  assumes "regime (cfgF n la lp mn mx rg)"
  obtains (linear) "mx \<le> la"
  | (mixed) "la < mx" "0 < lp" "lp < 1" "0 < la" "la < rg"
  | (exponential) "la < mx" "lp = 0" "la = 0"
  using assms by (cases "mx \<le> la") (auto simp: regime_def)

section \<open>The clamp\<close>



section \<open>The resolver\<close>


text \<open>
  C7 as stated: every resolved configuration has \<open>0 \<le> linearAbsolute \<le> max\<close>. With the
  bounds \<open>{min: -100, max: -10}\<close> and \<open>{maxLinear: 5, linearPercent: 50}\<close> the resolver
  gives \<open>linearAbsolute = round(-10 * 0.5) = -5\<close>, below 0 and above \<open>max = -10\<close>; with
  \<open>bounds.max = 0.75\<close> and \<open>{maxLinear: 2, linearPercent: 75}\<close> it gives
  \<open>linearAbsolute = round(0.5625) = 1\<close>, above \<open>max\<close>.
\<close>

theorem linearAbsolute_invariant_counterexample:
  "linearAbsolute (resolveConfig (Fin 4) \<lparr>minB = Fin (- 100), maxB = Fin (- 10)\<rparr>
       (Some \<lparr>maxLinear = Fin 5, linearPercent = Fin 50\<rparr>)) = Fin (- 5) \<and>
   maxR (resolveConfig (Fin 4) \<lparr>minB = Fin (- 100), maxB = Fin (- 10)\<rparr>
       (Some \<lparr>maxLinear = Fin 5, linearPercent = Fin 50\<rparr>)) = Fin (- 10) \<and>
   \<not> js_le (Fin 0) (Fin (- 5)) \<and> \<not> js_le (Fin (- 5)) (Fin (- 10)) \<and>
   linearAbsolute (resolveConfig (Fin 4) \<lparr>minB = Fin 0, maxB = Fin (3 / 4)\<rparr>
       (Some \<lparr>maxLinear = Fin 2, linearPercent = Fin 75\<rparr>)) = Fin 1 \<and>
   maxR (resolveConfig (Fin 4) \<lparr>minB = Fin 0, maxB = Fin (3 / 4)\<rparr>
       (Some \<lparr>maxLinear = Fin 2, linearPercent = Fin 75\<rparr>)) = Fin (3 / 4) \<and>
   \<not> js_le (Fin 1) (Fin (3 / 4))"
  by (simp add: resolveConfig_def defaultLinear_def Let_def)

lemma round_share_bounds:
  fixes p :: real and z :: int
  assumes "0 \<le> z" "0 \<le> p" "p \<le> 100"
  shows "0 \<le> \<lfloor>of_int z * (p / 100) + 1 / 2 :: real\<rfloor>"
    and "\<lfloor>of_int z * (p / 100) + 1 / 2 :: real\<rfloor> \<le> z"
proof -
  have "0 \<le> (of_int z :: real) * (p / 100)"
    using assms by simp
  then have "0 \<le> (of_int z :: real) * (p / 100) + 1 / 2"
    by linarith
  then show "0 \<le> \<lfloor>of_int z * (p / 100) + 1 / 2 :: real\<rfloor>"
    by (simp only: zero_le_floor)
  have "(of_int z :: real) * (p / 100) \<le> of_int z * 1"
    using assms by (intro mult_left_mono) simp_all
  then have "(of_int z :: real) * (p / 100) + 1 / 2 < of_int z + 1"
    by linarith
  then show "\<lfloor>of_int z * (p / 100) + 1 / 2 :: real\<rfloor> \<le> z"
    by (simp only: floor_le_iff)
qed

text \<open>
  C7, amended: when \<open>bounds.max\<close> is a non-negative integer, \<open>maxLinear \<ge> 0\<close> and
  \<open>0 \<le> linearPercent \<le> 100\<close>, the resolved configuration has
  \<open>0 \<le> linearAbsolute \<le> max\<close>.
\<close>

theorem linearAbsolute_invariant:
  assumes "isInteger (maxB bounds)" and "js_le (Fin 0) (maxB bounds)"
    and "js_le (Fin 0) (maxLinear (defaultLinear linearOpt))"
    and "js_le (Fin 0) (linearPercent (defaultLinear linearOpt))"
    and "js_le (linearPercent (defaultLinear linearOpt)) (Fin 100)"
  shows "js_le (Fin 0) (linearAbsolute (resolveConfig stepsN bounds linearOpt)) \<and>
         js_le (linearAbsolute (resolveConfig stepsN bounds linearOpt))
               (maxR (resolveConfig stepsN bounds linearOpt))"
proof -
  obtain z :: int where b: "maxB bounds = Fin (of_int z)" "0 \<le> z"
    using assms(1,2) by (auto simp: isInteger_iff)
  obtain p where p: "linearPercent (defaultLinear linearOpt) = Fin p" "0 \<le> p" "p \<le> 100"
    using assms(4,5) by (cases "linearPercent (defaultLinear linearOpt)") simp_all
  define r :: int where "r = \<lfloor>of_int z * (p / 100) + 1 / 2 :: real\<rfloor>"
  have r: "0 \<le> r" "r \<le> z"
    unfolding r_def using round_share_bounds [OF b(2) p(2,3)] by simp_all
  have full: "r = z" if "p = 100"
    unfolding r_def using that by simp
  have mx: "maxR (resolveConfig stepsN bounds linearOpt) =
            (if p = 100 then maxLinear (defaultLinear linearOpt) else Fin (of_int z))"
    using b(1) p(1) by (simp add: resolveConfig_def Let_def)
  have la: "linearAbsolute (resolveConfig stepsN bounds linearOpt) =
            Math_min (maxLinear (defaultLinear linearOpt)) (Fin (of_int r))"
    using b(1) p(1) by (simp add: resolveConfig_def Let_def r_def)
  show ?thesis
  proof (cases "maxLinear (defaultLinear linearOpt)")
    case (Fin ml)
    then have "0 \<le> ml"
      using assms(3) by simp
    then show ?thesis
      unfolding mx la Fin using r full by (auto simp: min_def)
  next
    case PosInf
    then show ?thesis
      unfolding mx la PosInf using r by (simp add: Math_min_def)
  qed (use assms(3) in simp_all)
qed

theorem linearAbsolute_invariant_witness:
  "js_le (Fin 0) (linearAbsolute (resolveConfig (Fin 1000) \<lparr>minB = Fin 500, maxB = Fin 12000\<rparr>
       (Some \<lparr>maxLinear = Fin 15000, linearPercent = Fin 90\<rparr>))) \<and>
   js_le (linearAbsolute (resolveConfig (Fin 1000) \<lparr>minB = Fin 500, maxB = Fin 12000\<rparr>
       (Some \<lparr>maxLinear = Fin 15000, linearPercent = Fin 90\<rparr>)))
     (maxR (resolveConfig (Fin 1000) \<lparr>minB = Fin 500, maxB = Fin 12000\<rparr>
       (Some \<lparr>maxLinear = Fin 15000, linearPercent = Fin 90\<rparr>)))"
  by (rule linearAbsolute_invariant) (simp_all add: defaultLinear_def)

section \<open>No linear configuration\<close>




section \<open>Zero divisors\<close>




section \<open>The seam between the linear and the exponential region\<close>




section \<open>The model value lies between the bounds\<close>


lemma square_in_unit:
  fixes t :: real
  assumes "0 \<le> t" "t \<le> 1"
  shows "0 \<le> t\<^sup>2" "t\<^sup>2 \<le> 1"
  using assms by (simp_all add: power_le_one)

lemma stm_within:
  assumes n: "0 < n" and mm: "mn \<le> mx"
    and fits: "mx \<le> la \<or> (0 \<le> la \<and> la < mx - mn)"
  shows "\<exists>r. stepToModelInternal (Fin s) (cfgF n la lp mn mx (mx - mn)) = Fin r \<and>
             mn \<le> r \<and> r \<le> mx"
proof -
  define st where "st = min (max s 0) n"
  define q where "q = st / n"
  have q: "0 \<le> q" "q \<le> 1" and st: "st \<le> n"
    unfolding q_def st_def using clamp_bounds [OF n] by simp_all
  show ?thesis
  proof (cases "mx \<le> la")
    case True
    have "0 \<le> q * (mx - mn)"
      using q(1) mm by simp
    moreover have "q * (mx - mn) \<le> 1 * (mx - mn)"
      using q(2) mm by (intro mult_right_mono) simp_all
    ultimately show ?thesis
      using stm_A [OF n True, of s lp mn "mx - mn"] by (simp add: q_def st_def)
  next
    case False
    then have la: "la < mx" "0 \<le> la" "la < mx - mn"
      using fits by simp_all
    show ?thesis
    proof (cases "q \<le> lp")
      case True
      define c where "c = (if 0 < lp then q / lp else 0)"
      have c: "0 \<le> c" "c \<le> 1"
        unfolding c_def using q(1) True by (simp_all add: divide_le_eq_1)
      have "0 \<le> c * la"
        using c(1) la(2) by simp
      moreover have "c * la \<le> 1 * la"
        using c(2) la(2) by (intro mult_right_mono) simp_all
      ultimately have "mn \<le> c * la + mn" "c * la + mn \<le> mx"
        using la(3) by simp_all
      moreover have "stepToModelInternal (Fin s) (cfgF n la lp mn mx (mx - mn)) =
                     Fin (c * la + mn)"
        using stm_B [OF n la(1), of s lp mn "mx - mn"] True by (simp add: q_def st_def c_def)
      ultimately show ?thesis
        by simp
    next
      case False
      then have lq: "lp < st / n" and lp1: "lp < 1"
        using q(2) by (simp_all add: q_def)
      define t where "t = (st - n * lp) / (n * (1 - lp))"
      define l where "l = (if 0 < lp then la else 0)"
      have "0 \<le> t" "t \<le> 1"
        unfolding t_def using percentOfMax_bounds [OF n lp1 lq st] by simp_all
      then have t2: "0 \<le> t\<^sup>2" "t\<^sup>2 \<le> 1"
        by (rule square_in_unit)+
      have "0 \<le> t\<^sup>2 * (mx - mn - la)"
        using t2(1) la(3) by simp
      moreover have "t\<^sup>2 * (mx - mn - la) \<le> 1 * (mx - mn - la)"
        using t2(2) la(3) by (intro mult_right_mono) simp_all
      moreover have "0 \<le> l" "l \<le> la"
        unfolding l_def using la(2) by simp_all
      ultimately have "mn \<le> l + t\<^sup>2 * (mx - mn - la) + mn"
        "l + t\<^sup>2 * (mx - mn - la) + mn \<le> mx"
        by simp_all
      moreover have "stepToModelInternal (Fin s) (cfgF n la lp mn mx (mx - mn)) =
                     Fin (l + t\<^sup>2 * (mx - mn - la) + mn)"
        using stm_C [OF n la(1), of lp s "mx - mn" mn] lq lp1 la(3)
        by (simp add: st_def t_def l_def)
      ultimately show ?thesis
        by simp
    qed
  qed
qed



section \<open>The ends of the two transforms\<close>


lemma limitBounds_low:
  assumes "js_le m (Fin mn)"
  shows "limitBounds m \<lparr>minB = Fin mn, maxB = Fin mx\<rparr> = Fin (min mn mx)"
  using assms by (cases m) (simp_all add: limitBounds_def Math_max_def max_def)

lemma limitBounds_high:
  assumes "js_ge m (Fin mx)" "mn \<le> mx"
  shows "limitBounds m \<lparr>minB = Fin mn, maxB = Fin mx\<rparr> = Fin mx"
  using assms
  by (cases m) (simp_all add: limitBounds_def Math_max_def Math_min_def js_ge_def max_def)

lemma mts_low:
  assumes "js_le m (Fin mn)" "mn \<le> mx"
  shows "modelToStepInternal m (cfgF n la lp mn mx rg) =
         modelToStepInternal (Fin mn) (cfgF n la lp mn mx rg)"
  using assms by (simp add: modelToStepInternal_def limitBounds_low del: limitBounds_Fin)

lemma mts_high:
  assumes "js_ge m (Fin mx)" "mn \<le> mx"
  shows "modelToStepInternal m (cfgF n la lp mn mx rg) =
         modelToStepInternal (Fin mx) (cfgF n la lp mn mx rg)"
  using assms by (simp add: modelToStepInternal_def limitBounds_high del: limitBounds_Fin)

lemma boundary_real:
  fixes z :: int
  assumes n: "0 < (of_int z :: real)" and mm: "mn < mx"
    and reg: "regime (cfgF (of_int z) la lp mn mx (mx - mn))"
  shows "stepToModelInternal (Fin 0) (cfgF (of_int z) la lp mn mx (mx - mn)) = Fin mn"
    and "stepToModelInternal (Fin (of_int z)) (cfgF (of_int z) la lp mn mx (mx - mn)) = Fin mx"
    and "modelToStepInternal (Fin mn) (cfgF (of_int z) la lp mn mx (mx - mn)) = Fin 0"
    and "modelToStepInternal (Fin mx) (cfgF (of_int z) la lp mn mx (mx - mn)) = Fin (of_int z)"
proof -
  let ?n = "of_int z :: real"
  let ?cfg = "cfgF ?n la lp mn mx (mx - mn)"
  have lo: "0 = max (min (max mn mn) mx - mn) 0"
    using mm by simp
  have hi: "mx - mn = max (min (max mx mn) mx - mn) 0"
    using mm by simp
  have rg: "mx - mn \<noteq> 0"
    using mm by simp
  from reg show "stepToModelInternal (Fin 0) ?cfg = Fin mn"
  proof (cases rule: regime_cases)
    case linear
    then show ?thesis
      using n by (simp add: stm_A)
  next
    case mixed
    then show ?thesis
      using n by (simp add: stm_B)
  next
    case exponential
    then show ?thesis
      using n by (simp add: stm_B)
  qed
  from reg show "stepToModelInternal (Fin ?n) ?cfg = Fin mx"
  proof (cases rule: regime_cases)
    case linear
    then show ?thesis
      using n by (simp add: stm_A)
  next
    case mixed
    then show ?thesis
      using n by (simp add: stm_C right_diff_distrib)
  next
    case exponential
    then show ?thesis
      using n mm by (simp add: stm_C)
  qed
  from reg show "modelToStepInternal (Fin mn) ?cfg = Fin 0"
  proof (cases rule: regime_cases)
    case linear
    then show ?thesis
      by (simp add: mts_A [OF _ rg lo])
  next
    case mixed
    then show ?thesis
      by (simp add: mts_B [OF _ _ _ lo])
  next
    case exponential
    then show ?thesis
      using mm by (simp add: mts_C [OF _ _ _ lo])
  qed
  from reg show "modelToStepInternal (Fin mx) ?cfg = Fin ?n"
  proof (cases rule: regime_cases)
    case linear
    then show ?thesis
      using rg by (simp add: mts_A [OF _ rg hi])
  next
    case mixed
    then have "modelToStepInternal (Fin mx) ?cfg =
        Fin (of_int (round (?n * lp + sqrt (max 0 (mx - mn - la) / (mx - mn - la)) * ?n * (1 - lp))))"
      by (intro mts_C [OF _ _ _ hi]) simp_all
    also have "max 0 (mx - mn - la) / (mx - mn - la) = 1"
      using mixed by simp
    also have "?n * lp + sqrt 1 * ?n * (1 - lp) = ?n"
      by (simp add: algebra_simps)
    finally show ?thesis
      by simp
  next
    case exponential
    then have "modelToStepInternal (Fin mx) ?cfg =
        Fin (of_int (round (?n * lp + sqrt (max 0 (mx - mn - la) / (mx - mn - la)) * ?n * (1 - lp))))"
      using mm by (intro mts_C [OF _ _ _ hi]) simp_all
    also have "max 0 (mx - mn - la) / (mx - mn - la) = 1"
      using exponential mm by simp
    also have "?n * lp + sqrt 1 * ?n * (1 - lp) = ?n"
      by (simp add: algebra_simps)
    finally show ?thesis
      by simp
  qed
qed



section \<open>Monotonicity\<close>


lemma stm_mono_real:
  assumes n: "0 < n" and mm: "mn \<le> mx"
    and fits: "mx \<le> la \<or> (0 \<le> la \<and> la < mx - mn)"
    and le: "s1 \<le> s2"
  shows "\<exists>r1 r2. stepToModelInternal (Fin s1) (cfgF n la lp mn mx (mx - mn)) = Fin r1 \<and>
                 stepToModelInternal (Fin s2) (cfgF n la lp mn mx (mx - mn)) = Fin r2 \<and>
                 r1 \<le> r2"
proof -
  let ?cfg = "cfgF n la lp mn mx (mx - mn)"
  define st1 where "st1 = min (max s1 0) n"
  define st2 where "st2 = min (max s2 0) n"
  have st: "st1 \<le> st2" "0 \<le> st1" "st2 \<le> n" "st1 \<le> n"
    unfolding st1_def st2_def using clamp_mono [OF le] clamp_bounds [OF n] by simp_all
  have q: "st1 / n \<le> st2 / n" "0 \<le> st1 / n" "st2 / n \<le> 1"
    using st n by (simp_all add: divide_right_mono)
  show ?thesis
  proof (cases "mx \<le> la")
    case True
    have "st1 / n * (mx - mn) \<le> st2 / n * (mx - mn)"
      using q(1) mm by (intro mult_right_mono) simp_all
    then show ?thesis
      using stm_A [OF n True, of s1 lp mn "mx - mn"] stm_A [OF n True, of s2 lp mn "mx - mn"]
      by (simp add: st1_def st2_def)
  next
    case False
    then have la: "la < mx" "0 \<le> la" "la < mx - mn"
      using fits by simp_all
    define l where "l = (if 0 < lp then la else 0)"
    define c where "c = (\<lambda>st. if 0 < lp then st / n / lp else 0)"
    define t where "t = (\<lambda>st. (st - n * lp) / (n * (1 - lp)))"
    have B: "stepToModelInternal (Fin s) ?cfg = Fin (c (min (max s 0) n) * la + mn)"
      if "min (max s 0) n / n \<le> lp" for s
      using stm_B [OF n la(1) that, of mn "mx - mn"] by (simp add: c_def)
    have C: "stepToModelInternal (Fin s) ?cfg =
             Fin (l + (t (min (max s 0) n))\<^sup>2 * (mx - mn - la) + mn)"
      if "lp < min (max s 0) n / n" for s
    proof -
      have "lp < 1"
        using that clamp_bounds(4) [OF n, of s] by simp
      then show ?thesis
        using stm_C [OF n la(1) that, of "mx - mn" mn] la(3) by (simp add: l_def t_def)
    qed
    consider (BB) "st2 / n \<le> lp" | (BC) "st1 / n \<le> lp" "lp < st2 / n" | (CC) "lp < st1 / n"
      by linarith
    then show ?thesis
    proof cases
      case BB
      then have 1: "st1 / n \<le> lp"
        using q(1) by simp
      have "c st1 \<le> c st2"
        using divide_right_mono [OF q(1), of lp] by (simp add: c_def)
      then have "c st1 * la \<le> c st2 * la"
        by (rule mult_right_mono) (rule la(2))
      then show ?thesis
        using B [of s1] B [of s2] 1 BB by (simp add: st1_def st2_def)
    next
      case BC
      then have lp1: "lp < 1"
        using q(3) by simp
      have "c st1 \<le> (if 0 < lp then 1 else 0)"
      proof (cases "0 < lp")
        case True
        with BC(1) have "st1 / n / lp \<le> lp / lp"
          by (intro divide_right_mono) simp_all
        then show ?thesis
          using True by (simp add: c_def)
      next
        case False
        then show ?thesis
          by (simp add: c_def)
      qed
      then have "c st1 * la \<le> (if 0 < lp then 1 else 0) * la"
        by (rule mult_right_mono) (rule la(2))
      then have "c st1 * la \<le> l"
        by (simp add: l_def split: if_splits)
      moreover have "0 \<le> (t st2)\<^sup>2 * (mx - mn - la)"
        using la(3) by simp
      ultimately have "c st1 * la + mn \<le> l + (t st2)\<^sup>2 * (mx - mn - la) + mn"
        by simp
      then show ?thesis
        using B [of s1] C [of s2] BC by (simp add: st1_def st2_def)
    next
      case CC
      then have 2: "lp < st2 / n" and lp1: "lp < 1"
        using q(1,3) by simp_all
      have "0 < t st1"
        unfolding t_def using percentOfMax_bounds(1) [OF n lp1 CC st(4)] .
      moreover have "t st1 \<le> t st2"
        unfolding t_def using st(1) n lp1 by (intro divide_right_mono) simp_all
      ultimately have "(t st1)\<^sup>2 \<le> (t st2)\<^sup>2"
        by (intro power_mono) simp_all
      then have "(t st1)\<^sup>2 * (mx - mn - la) \<le> (t st2)\<^sup>2 * (mx - mn - la)"
        using la(3) by (intro mult_right_mono) simp_all
      then show ?thesis
        using C [of s1] C [of s2] CC 2 by (simp add: st1_def st2_def)
    qed
  qed
qed

lemma mts_mono_real:
  assumes n: "0 \<le> n" and mm: "mn < mx" and lp: "0 \<le> lp" "lp \<le> 1" and le: "m1 \<le> m2"
  shows "\<exists>k1 k2. modelToStepInternal (Fin m1) (cfgF n la lp mn mx (mx - mn)) = Fin (of_int k1) \<and>
                 modelToStepInternal (Fin m2) (cfgF n la lp mn mx (mx - mn)) = Fin (of_int k2) \<and>
                 k1 \<le> k2"
proof -
  let ?cfg = "cfgF n la lp mn mx (mx - mn)"
  define a1 where "a1 = max (min (max m1 mn) mx - mn) 0"
  define a2 where "a2 = max (min (max m2 mn) mx - mn) 0"
  have a: "a1 \<le> a2" "0 \<le> a1" "a2 \<le> mx - mn"
    unfolding a1_def a2_def using le mm by (simp_all add: min_def max_def)
  have rg: "mx - mn \<noteq> 0" "0 < mx - mn"
    using mm by simp_all
  define e where "e = (\<lambda>a. n * lp + sqrt (max 0 (a - la) / (mx - mn - la)) * n * (1 - lp))"
  consider (A) "mx \<le> la" | (BB) "la < mx" "0 < la" "a2 \<le> la"
    | (BC) "la < mx" "0 < la" "a1 \<le> la" "la < a2" | (CC) "la < mx" "la \<le> 0 \<or> la < a1"
    by linarith
  then show ?thesis
  proof cases
    case A
    have "a1 / (mx - mn) \<le> a2 / (mx - mn)"
      using a(1) rg(2) by (intro divide_right_mono) simp_all
    then have "a1 / (mx - mn) * n \<le> a2 / (mx - mn) * n"
      by (rule mult_right_mono) (rule n)
    then have "round (a1 / (mx - mn) * n) \<le> round (a2 / (mx - mn) * n)"
      by (rule round_mono)
    then show ?thesis
      using mts_A [OF A rg(1) a1_def, of n lp] mts_A [OF A rg(1) a2_def, of n lp] by blast
  next
    case BB
    then have 1: "a1 \<le> la"
      using a(1) by simp
    have "a1 / la \<le> a2 / la"
      using a(1) BB(2) by (intro divide_right_mono) simp_all
    then have "a1 / la * lp \<le> a2 / la * lp"
      by (rule mult_right_mono) (rule lp(1))
    then have "a1 / la * lp * n \<le> a2 / la * lp * n"
      by (rule mult_right_mono) (rule n)
    then have "round (a1 / la * lp * n) \<le> round (a2 / la * lp * n)"
      by (rule round_mono)
    then show ?thesis
      using mts_B [OF BB(1,2) 1 a1_def, of n lp "mx - mn"]
        mts_B [OF BB(1,2,3) a2_def, of n lp "mx - mn"] by blast
  next
    case BC
    then have rest: "la < mx - mn"
      using a(3) by simp
    have "a1 / la \<le> 1"
      using BC(2,3) by simp
    then have "a1 / la * lp \<le> 1 * lp"
      by (rule mult_right_mono) (rule lp(1))
    then have "a1 / la * lp * n \<le> 1 * lp * n"
      by (rule mult_right_mono) (rule n)
    moreover have "0 \<le> sqrt (max 0 (a2 - la) / (mx - mn - la)) * n * (1 - lp)"
      using rest n lp(2) by simp
    ultimately have "a1 / la * lp * n \<le> e a2"
      by (simp add: e_def mult.commute)
    then have "round (a1 / la * lp * n) \<le> round (e a2)"
      by (rule round_mono)
    then show ?thesis
      using mts_B [OF BC(1,2,3) a1_def, of n lp "mx - mn"]
        mts_C [OF BC(1) _ rest a2_def, of n lp] BC(4) unfolding e_def by blast
  next
    case CC
    then have rest: "la < mx - mn" and 2: "la \<le> 0 \<or> la < a2"
      using a rg(2) by auto
    have "max 0 (a1 - la) / (mx - mn - la) \<le> max 0 (a2 - la) / (mx - mn - la)"
      using a(1) rest by (intro divide_right_mono) simp_all
    then have "sqrt (max 0 (a1 - la) / (mx - mn - la)) \<le> sqrt (max 0 (a2 - la) / (mx - mn - la))"
      by (simp only: real_sqrt_le_iff)
    then have "sqrt (max 0 (a1 - la) / (mx - mn - la)) * n
               \<le> sqrt (max 0 (a2 - la) / (mx - mn - la)) * n"
      by (rule mult_right_mono) (rule n)
    then have "sqrt (max 0 (a1 - la) / (mx - mn - la)) * n * (1 - lp)
               \<le> sqrt (max 0 (a2 - la) / (mx - mn - la)) * n * (1 - lp)"
      by (rule mult_right_mono) (use lp(2) in simp)
    then have "e a1 \<le> e a2"
      by (simp add: e_def)
    then have "round (e a1) \<le> round (e a2)"
      by (rule round_mono)
    then show ?thesis
      using mts_C [OF CC(1,2) rest a1_def, of n lp] mts_C [OF CC(1) 2 rest a2_def, of n lp]
      unfolding e_def by blast
  qed
qed



section \<open>The round trip\<close>


lemma roundTrip_A:
  assumes n: "0 < n" and mm: "mn < mx" and A: "mx \<le> la" and s: "0 \<le> s" "s \<le> n"
  shows "modelToStepInternal (stepToModelInternal (Fin s) (cfgF n la lp mn mx (mx - mn)))
           (cfgF n la lp mn mx (mx - mn)) = Fin (of_int (round s))"
proof -
  define a where "a = s / n * (mx - mn)"
  have q: "0 \<le> s / n" "s / n \<le> 1"
    using n s by simp_all
  have "0 \<le> a"
    unfolding a_def using q(1) mm by (intro mult_nonneg_nonneg) simp_all
  moreover have "a \<le> 1 * (mx - mn)"
    unfolding a_def using q(2) mm by (intro mult_right_mono) simp_all
  ultimately have act: "a = max (min (max (a + mn) mn) mx - mn) 0"
    by simp
  have rg: "mx - mn \<noteq> 0"
    using mm by simp
  have "stepToModelInternal (Fin s) (cfgF n la lp mn mx (mx - mn)) = Fin (a + mn)"
    using stm_A [OF n A, of s lp mn "mx - mn"] by (simp add: clamp_id [OF s] a_def)
  moreover have "modelToStepInternal (Fin (a + mn)) (cfgF n la lp mn mx (mx - mn)) =
                 Fin (of_int (round (a / (mx - mn) * n)))"
    by (rule mts_A [OF A rg act])
  moreover have "a / (mx - mn) * n = s"
    unfolding a_def using rg n by simp
  ultimately show ?thesis
    by simp
qed

lemma roundTrip_B:
  assumes n: "0 < n" and B: "la < mx" "0 < la" "la \<le> mx - mn" "0 < lp" "s / n \<le> lp"
    and s: "0 \<le> s" "s \<le> n"
  shows "modelToStepInternal (stepToModelInternal (Fin s) (cfgF n la lp mn mx (mx - mn)))
           (cfgF n la lp mn mx (mx - mn)) = Fin (of_int (round s))"
proof -
  define a where "a = s / n / lp * la"
  have "s / n / lp \<le> lp / lp"
    using B(4,5) by (intro divide_right_mono) simp_all
  then have c: "s / n / lp \<le> 1" "0 \<le> s / n / lp"
    using B(4) n s(1) by simp_all
  have "0 \<le> a"
    unfolding a_def using c(2) B(2) by (intro mult_nonneg_nonneg) simp_all
  moreover have "a \<le> 1 * la"
    unfolding a_def using c(1) B(2) by (intro mult_right_mono) simp_all
  ultimately have a: "0 \<le> a" "a \<le> la" "a \<le> mx - mn"
    using B(3) by simp_all
  then have act: "a = max (min (max (a + mn) mn) mx - mn) 0"
    by simp
  have "stepToModelInternal (Fin s) (cfgF n la lp mn mx (mx - mn)) = Fin (a + mn)"
    using stm_B [OF n B(1), of s lp mn "mx - mn"] B(4,5) by (simp add: clamp_id [OF s] a_def)
  moreover have "modelToStepInternal (Fin (a + mn)) (cfgF n la lp mn mx (mx - mn)) =
                 Fin (of_int (round (a / la * lp * n)))"
    by (rule mts_B [OF B(1,2) a(2) act])
  moreover have "a / la * lp * n = s"
    unfolding a_def using B(2,4) n by simp
  ultimately show ?thesis
    by simp
qed

lemma roundTrip_C:
  assumes n: "0 < n" and C: "la < mx" "0 \<le> la" "la < mx - mn" "lp < 1" "lp < s / n"
    and guard: "0 < lp \<or> la = 0" and s: "0 \<le> s" "s \<le> n"
  shows "modelToStepInternal (stepToModelInternal (Fin s) (cfgF n la lp mn mx (mx - mn)))
           (cfgF n la lp mn mx (mx - mn)) = Fin (of_int (round s))"
proof -
  define t where "t = (s - n * lp) / (n * (1 - lp))"
  define a where "a = la + t\<^sup>2 * (mx - mn - la)"
  have t: "0 < t" "t \<le> 1"
    unfolding t_def using percentOfMax_bounds [OF n C(4,5) s(2)] by simp_all
  then have t2: "0 < t\<^sup>2" "t\<^sup>2 \<le> 1"
    by (simp_all add: power_le_one)
  have "0 < t\<^sup>2 * (mx - mn - la)"
    using t2(1) C(3) by simp
  moreover have "t\<^sup>2 * (mx - mn - la) \<le> 1 * (mx - mn - la)"
    using t2(2) C(3) by (intro mult_right_mono) simp_all
  ultimately have a: "la < a" "a \<le> mx - mn"
    unfolding a_def by simp_all
  then have act: "a = max (min (max (a + mn) mn) mx - mn) 0"
    using C(2) by simp
  have l: "(if 0 < lp then la else 0) = la"
    using guard by auto
  have "stepToModelInternal (Fin s) (cfgF n la lp mn mx (mx - mn)) = Fin (a + mn)"
    using stm_C [OF n C(1), of lp s "mx - mn" mn] C(3,4,5)
    by (simp add: clamp_id [OF s] a_def t_def l)
  moreover have "modelToStepInternal (Fin (a + mn)) (cfgF n la lp mn mx (mx - mn)) =
      Fin (of_int (round (n * lp + sqrt (max 0 (a - la) / (mx - mn - la)) * n * (1 - lp))))"
    using a(1) by (intro mts_C [OF C(1) _ C(3) act]) simp
  moreover have "max 0 (a - la) / (mx - mn - la) = t\<^sup>2"
    unfolding a_def using t2(1) C(3) by simp
  moreover have "sqrt (t\<^sup>2) = t"
    using t(1) by simp
  moreover have "n * lp + t * n * (1 - lp) = s"
  proof -
    have "t * (n * (1 - lp)) = s - n * lp"
      unfolding t_def using n C(4) by simp
    then show ?thesis
      by (simp add: mult.assoc)
  qed
  ultimately show ?thesis
    by simp
qed

lemma roundTrip_real:
  fixes k :: int
  assumes n: "0 < n" and mm: "mn < mx" and reg: "regime (cfgF n la lp mn mx (mx - mn))"
    and k: "0 \<le> k" "of_int k \<le> n"
  shows "modelToStepInternal (stepToModelInternal (Fin (of_int k)) (cfgF n la lp mn mx (mx - mn)))
           (cfgF n la lp mn mx (mx - mn)) = Fin (of_int k)"
proof -
  have s: "0 \<le> (of_int k :: real)"
    using k(1) by simp
  have "modelToStepInternal (stepToModelInternal (Fin (of_int k)) (cfgF n la lp mn mx (mx - mn)))
           (cfgF n la lp mn mx (mx - mn)) = Fin (of_int (round (of_int k :: real)))"
    using reg
  proof (cases rule: regime_cases)
    case linear
    then show ?thesis
      by (intro roundTrip_A [OF n mm _ s k(2)])
  next
    case mixed
    show ?thesis
    proof (cases "of_int k / n \<le> lp")
      case True
      with mixed show ?thesis
        by (intro roundTrip_B [OF n _ _ _ _ _ s k(2)]) simp_all
    next
      case False
      with mixed show ?thesis
        by (intro roundTrip_C [OF n _ _ _ _ _ _ s k(2)]) simp_all
    qed
  next
    case exponential
    show ?thesis
    proof (cases "of_int k / n \<le> lp")
      case True
      then have "k = 0"
        using exponential(2) n k(1) by (simp add: divide_le_0_iff)
      moreover have "stepToModelInternal (Fin 0) (cfgF n la lp mn mx (mx - mn)) = Fin mn"
        using exponential n by (simp add: stm_B)
      moreover have "modelToStepInternal (Fin mn) (cfgF n la lp mn mx (mx - mn)) = Fin 0"
        using exponential mm by (simp add: mts_C [where act = 0])
      ultimately show ?thesis
        by simp
    next
      case False
      with exponential mm show ?thesis
        by (intro roundTrip_C [OF n _ _ _ _ _ _ s k(2)]) simp_all
    qed
  qed
  then show ?thesis
    by simp
qed



end
